theory Spec2Isabelle
  imports Main
begin

chapter \<open>ipynb-ast: the MIME classifier and the tree walker\<close>

text \<open>
  A shallow embedding of two modules of the repository: \<^verbatim>\<open>src/mime-types.ts\<close>
  (classification, priority and selection of representation identifiers) and
  \<^verbatim>\<open>src/transformer.ts\<close> (visit, transform, filter, findAll over the node tree).
  The definitions come first, the theorems after them.

  A JavaScript string is modelled as a \<^typ>\<open>string\<close>; the functions below only
  compare strings for equality and test prefixes and suffixes against ASCII literals.
\<close>

section \<open>MIME type constants\<close>

text \<open>The identifier groups \<^verbatim>\<open>TEXT_MIME_TYPES\<close>, \<^verbatim>\<open>IMAGE_MIME_TYPES\<close>,
  \<^verbatim>\<open>APPLICATION_MIME_TYPES\<close>, \<^verbatim>\<open>JUPYTER_MIME_TYPES\<close> and
  \<^verbatim>\<open>VISUALIZATION_MIME_TYPES\<close>, one abbreviation per member.\<close>

abbreviation TEXT_PLAIN :: string where "TEXT_PLAIN \<equiv> ''text/plain''"
abbreviation TEXT_HTML :: string where "TEXT_HTML \<equiv> ''text/html''"
abbreviation TEXT_MARKDOWN :: string where "TEXT_MARKDOWN \<equiv> ''text/markdown''"
abbreviation TEXT_LATEX :: string where "TEXT_LATEX \<equiv> ''text/latex''"
abbreviation TEXT_CSV :: string where "TEXT_CSV \<equiv> ''text/csv''"
abbreviation TEXT_XML :: string where "TEXT_XML \<equiv> ''text/xml''"

abbreviation IMAGE_PNG :: string where "IMAGE_PNG \<equiv> ''image/png''"
abbreviation IMAGE_JPEG :: string where "IMAGE_JPEG \<equiv> ''image/jpeg''"
abbreviation IMAGE_GIF :: string where "IMAGE_GIF \<equiv> ''image/gif''"
abbreviation IMAGE_SVG :: string where "IMAGE_SVG \<equiv> ''image/svg+xml''"
abbreviation IMAGE_BMP :: string where "IMAGE_BMP \<equiv> ''image/bmp''"
abbreviation IMAGE_WEBP :: string where "IMAGE_WEBP \<equiv> ''image/webp''"

abbreviation APPLICATION_JSON :: string where "APPLICATION_JSON \<equiv> ''application/json''"
abbreviation APPLICATION_JAVASCRIPT :: string where
  "APPLICATION_JAVASCRIPT \<equiv> ''application/javascript''"
abbreviation APPLICATION_PDF :: string where "APPLICATION_PDF \<equiv> ''application/pdf''"
abbreviation APPLICATION_GEOJSON :: string where
  "APPLICATION_GEOJSON \<equiv> ''application/geo+json''"

abbreviation WIDGET_VIEW :: string where
  "WIDGET_VIEW \<equiv> ''application/vnd.jupyter.widget-view+json''"
abbreviation WIDGET_STATE :: string where
  "WIDGET_STATE \<equiv> ''application/vnd.jupyter.widget-state+json''"

abbreviation PLOTLY_V1 :: string where "PLOTLY_V1 \<equiv> ''application/vnd.plotly.v1+json''"
abbreviation VEGA_V2 :: string where "VEGA_V2 \<equiv> ''application/vnd.vega.v2+json''"
abbreviation VEGA_V3 :: string where "VEGA_V3 \<equiv> ''application/vnd.vega.v3+json''"
abbreviation VEGA_V4 :: string where "VEGA_V4 \<equiv> ''application/vnd.vega.v4+json''"
abbreviation VEGA_V5 :: string where "VEGA_V5 \<equiv> ''application/vnd.vega.v5+json''"
abbreviation VEGALITE_V1 :: string where
  "VEGALITE_V1 \<equiv> ''application/vnd.vegalite.v1+json''"
abbreviation VEGALITE_V2 :: string where
  "VEGALITE_V2 \<equiv> ''application/vnd.vegalite.v2+json''"
abbreviation VEGALITE_V3 :: string where
  "VEGALITE_V3 \<equiv> ''application/vnd.vegalite.v3+json''"
abbreviation VEGALITE_V4 :: string where
  "VEGALITE_V4 \<equiv> ''application/vnd.vegalite.v4+json''"
abbreviation VEGALITE_V5 :: string where
  "VEGALITE_V5 \<equiv> ''application/vnd.vegalite.v5+json''"
abbreviation BOKEH :: string where "BOKEH \<equiv> ''application/vnd.bokehjs_exec.v0+json''"
abbreviation HOLOVIEWS_EXEC :: string where
  "HOLOVIEWS_EXEC \<equiv> ''application/vnd.holoviews_exec.v0+json''"
abbreviation HOLOVIEWS_LOAD :: string where
  "HOLOVIEWS_LOAD \<equiv> ''application/vnd.holoviews_load.v0+json''"

section \<open>MIME type categories\<close>

definition TEXT_CONTENT_TYPES :: "string list" where
  "TEXT_CONTENT_TYPES =
     [TEXT_PLAIN, TEXT_HTML, TEXT_MARKDOWN, TEXT_LATEX, TEXT_CSV, TEXT_XML,
      APPLICATION_JAVASCRIPT, IMAGE_SVG]"

definition BINARY_CONTENT_TYPES :: "string list" where
  "BINARY_CONTENT_TYPES =
     [IMAGE_PNG, IMAGE_JPEG, IMAGE_GIF, IMAGE_BMP, IMAGE_WEBP, APPLICATION_PDF]"

definition JSON_CONTENT_TYPES :: "string list" where
  "JSON_CONTENT_TYPES =
     [APPLICATION_JSON, APPLICATION_GEOJSON, WIDGET_VIEW, WIDGET_STATE, PLOTLY_V1,
      VEGA_V2, VEGA_V3, VEGA_V4, VEGA_V5,
      VEGALITE_V1, VEGALITE_V2, VEGALITE_V3, VEGALITE_V4, VEGALITE_V5,
      BOKEH, HOLOVIEWS_EXEC, HOLOVIEWS_LOAD]"

definition IMAGE_CONTENT_TYPES :: "string list" where
  "IMAGE_CONTENT_TYPES =
     [IMAGE_PNG, IMAGE_JPEG, IMAGE_GIF, IMAGE_SVG, IMAGE_BMP, IMAGE_WEBP]"

section \<open>MIME type utilities\<close>

text \<open>\<^verbatim>\<open>String.prototype.startsWith\<close> and \<^verbatim>\<open>endsWith\<close> with one argument, and
  \<^verbatim>\<open>Array.prototype.includes\<close> on an array of strings.\<close>

definition startsWith :: "string \<Rightarrow> string \<Rightarrow> bool" where
  "startsWith s p = (take (length p) s = p)"

definition endsWith :: "string \<Rightarrow> string \<Rightarrow> bool" where
  "endsWith s p = (drop (length s - length p) s = p)"

definition array_includes :: "string list \<Rightarrow> string \<Rightarrow> bool" where
  "array_includes xs x = (x \<in> set xs)"

definition isTextMimeType :: "string \<Rightarrow> bool" where
  "isTextMimeType mimeType = array_includes TEXT_CONTENT_TYPES mimeType"

definition isBinaryMimeType :: "string \<Rightarrow> bool" where
  "isBinaryMimeType mimeType = array_includes BINARY_CONTENT_TYPES mimeType"

definition isJsonMimeType :: "string \<Rightarrow> bool" where
  "isJsonMimeType mimeType =
     (array_includes JSON_CONTENT_TYPES mimeType \<or> endsWith mimeType ''+json'')"

definition isImageMimeType :: "string \<Rightarrow> bool" where
  "isImageMimeType mimeType =
     (array_includes IMAGE_CONTENT_TYPES mimeType \<or> startsWith mimeType ''image/'')"

definition isWidgetMimeType :: "string \<Rightarrow> bool" where
  "isWidgetMimeType mimeType = (mimeType = WIDGET_VIEW \<or> mimeType = WIDGET_STATE)"

definition isVisualizationMimeType :: "string \<Rightarrow> bool" where
  "isVisualizationMimeType mimeType =
     (startsWith mimeType ''application/vnd.plotly.'' \<or>
      startsWith mimeType ''application/vnd.vega.'' \<or>
      startsWith mimeType ''application/vnd.vegalite.'' \<or>
      startsWith mimeType ''application/vnd.bokehjs'' \<or>
      startsWith mimeType ''application/vnd.holoviews'')"

datatype category = Text | Binary | Json | Image | Widget | Visualization | Unknown

definition getMimeTypeCategory :: "string \<Rightarrow> category" where
  "getMimeTypeCategory mimeType =
     (if isWidgetMimeType mimeType then Widget
      else if isVisualizationMimeType mimeType then Visualization
      else if isImageMimeType mimeType then Image
      else if isJsonMimeType mimeType then Json
      else if isBinaryMimeType mimeType then Binary
      else if isTextMimeType mimeType then Text
      else Unknown)"

text \<open>The categories with their tests in the order the specification lists them
  (widget, visualization, image, json, binary, text), and the first test that matches.\<close>

definition category_tests :: "((string \<Rightarrow> bool) \<times> category) list" where
  "category_tests =
     [(isWidgetMimeType, Widget), (isVisualizationMimeType, Visualization),
      (isImageMimeType, Image), (isJsonMimeType, Json),
      (isBinaryMimeType, Binary), (isTextMimeType, Text)]"

fun first_match :: "((string \<Rightarrow> bool) \<times> category) list \<Rightarrow> string \<Rightarrow> category" where
  "first_match [] m = Unknown"
| "first_match ((test, c) # rest) m = (if test m then c else first_match rest m)"

section \<open>Priority and selection\<close>

text \<open>\<^verbatim>\<open>MIME_TYPE_PRIORITY\<close> is an object literal used as a lookup table; its own
  properties are the 24 entries below.\<close>

definition MIME_TYPE_PRIORITY :: "(string \<times> int) list" where
  "MIME_TYPE_PRIORITY =
     [(TEXT_HTML, 100),
      (WIDGET_VIEW, 95), (PLOTLY_V1, 90),
      (VEGALITE_V5, 88), (VEGALITE_V4, 87), (VEGALITE_V3, 86), (VEGALITE_V2, 85),
      (VEGALITE_V1, 84),
      (VEGA_V5, 83), (VEGA_V4, 82), (VEGA_V3, 81), (VEGA_V2, 80),
      (IMAGE_SVG, 75), (IMAGE_PNG, 70), (IMAGE_JPEG, 65), (IMAGE_WEBP, 64),
      (IMAGE_GIF, 63), (IMAGE_BMP, 60),
      (TEXT_MARKDOWN, 55), (TEXT_LATEX, 50), (APPLICATION_JSON, 45),
      (APPLICATION_GEOJSON, 44),
      (APPLICATION_JAVASCRIPT, 40),
      (TEXT_PLAIN, 10)]"

text \<open>
  The expression \<^verbatim>\<open>MIME_TYPE_PRIORITY[mimeType]\<close> is an ordinary property read: it
  finds an own property of the object literal, otherwise a property that the literal
  inherits from \<^verbatim>\<open>Object.prototype\<close>, otherwise \<^verbatim>\<open>undefined\<close>. The names every
  object literal inherits are fixed by the language (ECMAScript, "Properties of the
  Object Prototype Object"): they hold functions, and \<^verbatim>\<open>__proto__\<close> reads as the
  prototype object itself.
\<close>

definition OBJECT_PROTOTYPE_KEYS :: "string list" where
  "OBJECT_PROTOTYPE_KEYS =
     [''constructor'', ''hasOwnProperty'', ''isPrototypeOf'', ''propertyIsEnumerable'',
      ''toLocaleString'', ''toString'', ''valueOf'', ''__proto__'',
      ''__defineGetter__'', ''__defineSetter__'', ''__lookupGetter__'',
      ''__lookupSetter__'']"

text \<open>What a read of the table can return: a number of the table, an inherited
  member (a function or the prototype object), or \<^verbatim>\<open>undefined\<close>.\<close>

datatype jsvalue = Number int | Inherited string | Undefined

definition getProperty :: "(string \<times> int) list \<Rightarrow> string \<Rightarrow> jsvalue" where
  "getProperty table key =
     (case map_of table key of
        Some n \<Rightarrow> Number n
      | None \<Rightarrow> if array_includes OBJECT_PROTOTYPE_KEYS key then Inherited key else Undefined)"

text \<open>\<^verbatim>\<open>x ?? 0\<close> replaces only \<^verbatim>\<open>undefined\<close> (and \<^verbatim>\<open>null\<close>).\<close>

definition getMimeTypePriority :: "string \<Rightarrow> jsvalue" where
  "getMimeTypePriority mimeType =
     (case getProperty MIME_TYPE_PRIORITY mimeType of Undefined \<Rightarrow> Number 0 | v \<Rightarrow> v)"

text \<open>\<^verbatim>\<open>a > b\<close>: both operands are converted to numbers; a function or a plain
  object converts to NaN, and every comparison with NaN is false.\<close>

fun js_greater :: "jsvalue \<Rightarrow> jsvalue \<Rightarrow> bool" where
  "js_greater (Number a) (Number b) = (a > b)"
| "js_greater _ _ = False"

text \<open>\<^verbatim>\<open>reduce\<close> without an initial value starts from element 0 and folds the rest
  from the left; \<open>reducer\<close> is the callback passed to it.\<close>

definition reducer :: "string \<Rightarrow> string \<Rightarrow> string" where
  "reducer best current =
     (let bestPriority = getMimeTypePriority best;
          currentPriority = getMimeTypePriority current
      in if js_greater currentPriority bestPriority then current else best)"

definition selectBestMimeType :: "string list \<Rightarrow> string option" where
  "selectBestMimeType mimeTypes =
     (case mimeTypes of
        [] \<Rightarrow> None
      | [m] \<Rightarrow> Some m
      | m # rest \<Rightarrow> Some (foldl reducer m rest))"

text \<open>The score the specification speaks of: the table's number, 0 for an identifier
  absent from the table. \<open>first_best\<close> is the first identifier of a list whose score
  no identifier of the list exceeds.\<close>

definition table_score :: "string \<Rightarrow> int" where
  "table_score m = (case map_of MIME_TYPE_PRIORITY m of Some n \<Rightarrow> n | None \<Rightarrow> 0)"

definition maximal_in :: "string list \<Rightarrow> string \<Rightarrow> bool" where
  "maximal_in ms m = list_all (\<lambda>m'. table_score m' \<le> table_score m) ms"

definition first_best :: "string list \<Rightarrow> string option" where
  "first_best ms = find (maximal_in ms) ms"

definition own_names_only :: "string list \<Rightarrow> bool" where
  "own_names_only ms = list_all (\<lambda>m. \<not> array_includes OBJECT_PROTOTYPE_KEYS m) ms"

section \<open>Normalisation of payloads\<close>

text \<open>A payload is \<^verbatim>\<open>string | string[] | any\<close>: a string, an array (of strings,
  as declared), or some other value that is not an array (an object, a number, null,
  undefined), which the function never inspects.\<close>

datatype payload = PString string | PArray "string list" | POther nat

fun isArray :: "payload \<Rightarrow> bool" where
  "isArray (PArray _) = True"
| "isArray _ = False"

fun elements :: "payload \<Rightarrow> string list" where
  "elements (PArray xs) = xs"
| "elements _ = []"

text \<open>\<^verbatim>\<open>data.join('')\<close> on an array of strings.\<close>

definition join_empty :: "string list \<Rightarrow> string" where
  "join_empty xs = concat xs"

fun normalizeMimeData :: "string \<Rightarrow> payload \<Rightarrow> payload" where
  "normalizeMimeData mimeType (PArray xs) =
     (if isTextMimeType mimeType then PString (join_empty xs) else PArray xs)"
| "normalizeMimeData mimeType d = d"

section \<open>The node heap\<close>

text \<open>
  Nodes are JavaScript objects: they have an identity, \<^verbatim>\<open>transform\<close> assigns to their
  \<^verbatim>\<open>children\<close> property and \<^verbatim>\<open>filter\<close> creates new ones. The model keeps them in a
  store. A node holds its \<^verbatim>\<open>type\<close>, its remaining own properties (never inspected by
  the walker) and \<^verbatim>\<open>children\<close>: \<open>Some cs\<close> exactly when the test
  \<^verbatim>\<open>'children' in node && Array.isArray(node.children)\<close> succeeds, \<open>cs\<close> being the
  addresses of the child nodes in array order. Addresses below \<open>next_free\<close> are the
  objects that exist; an object literal is created at \<open>next_free\<close>. A children array
  is held by value in its node: an array that two nodes share, or that a callback
  changes while a walker iterates over it, is outside the model.
\<close>

type_synonym addr = nat

type_synonym props = "(string \<times> string) list"

record node =
  ntype :: string
  nprops :: props
  children :: "addr list option"

record heap =
  cells :: "addr \<Rightarrow> node"
  next_free :: addr

definition alloc :: "heap \<Rightarrow> node \<Rightarrow> addr \<times> heap" where
  "alloc h n =
     (next_free h, h\<lparr>cells := (cells h)(next_free h := n), next_free := Suc (next_free h)\<rparr>)"

text \<open>\<^verbatim>\<open>TransformOptions\<close>; an absent \<^verbatim>\<open>reverse\<close> is falsy, and the default
  \<^verbatim>\<open>options = {}\<close> is \<open>default_options\<close>.\<close>

record transformOptions =
  reverse :: bool

definition default_options :: transformOptions where
  "default_options = \<lparr>reverse = False\<rparr>"

text \<open>The index array both walkers build from \<^verbatim>\<open>children.length\<close> with
  \<^verbatim>\<open>Array.from\<close>.\<close>

definition indices :: "transformOptions \<Rightarrow> nat \<Rightarrow> nat list" where
  "indices options n =
     (if reverse options then map (\<lambda>i. n - 1 - i) [0..<n] else map (\<lambda>i. i) [0..<n])"

section \<open>visit\<close>

text \<open>
  A callback is a closure: it may keep state of its own (type \<open>'s\<close>), which the model
  passes in and out. It reads the node store; callbacks of \<^verbatim>\<open>visit\<close> and \<^verbatim>\<open>filter\<close>
  are taken not to write to it. A visitor's result counts only as \<^verbatim>\<open>result === false\<close>
  (\<open>Stop\<close>) or anything else (\<open>Continue\<close>). Each \<^verbatim>\<open>await\<close> completes before the next
  statement runs, so the asynchronous functions are modelled as sequential ones.

  The recursion of the walkers follows the object graph, which JavaScript does not
  require to be a tree; the model bounds the nesting depth by \<open>fuel\<close> and returns
  \<open>None\<close> when it is exhausted. The index \<open>i\<close> of \<open>cs ! i\<close> always comes from
  \<open>indices\<close> of \<open>length cs\<close>, hence is in range.
\<close>

datatype signal = Stop | Continue

type_synonym 's visitor =
  "'s \<Rightarrow> heap \<Rightarrow> addr \<Rightarrow> nat option \<Rightarrow> addr option \<Rightarrow> signal \<times> 's"

fun visitNode ::
  "nat \<Rightarrow> 's visitor \<Rightarrow> transformOptions \<Rightarrow> heap \<Rightarrow> addr \<Rightarrow> nat option \<Rightarrow> addr option \<Rightarrow> 's
    \<Rightarrow> (bool \<times> 's) option"
and visitChildren ::
  "nat \<Rightarrow> 's visitor \<Rightarrow> transformOptions \<Rightarrow> heap \<Rightarrow> addr \<Rightarrow> addr list \<Rightarrow> nat list \<Rightarrow> 's
    \<Rightarrow> (bool \<times> 's) option"
where
  "visitNode 0 visitor options h node index parent s = None"
| "visitNode (Suc fuel) visitor options h node index parent s =
     (case visitor s h node index parent of
        (Stop, s') \<Rightarrow> Some (False, s')
      | (Continue, s') \<Rightarrow>
          (case children (cells h node) of
             None \<Rightarrow> Some (True, s')
           | Some cs \<Rightarrow>
               visitChildren fuel visitor options h node cs (indices options (length cs)) s'))"
| "visitChildren fuel visitor options h node cs [] s = Some (True, s)"
| "visitChildren fuel visitor options h node cs (i # rest) s =
     (case visitNode fuel visitor options h (cs ! i) (Some i) (Some node) s of
        None \<Rightarrow> None
      | Some (shouldContinue, s') \<Rightarrow>
          if \<not> shouldContinue then Some (False, s')
          else visitChildren fuel visitor options h node cs rest s')"

definition visit ::
  "nat \<Rightarrow> 's visitor \<Rightarrow> transformOptions \<Rightarrow> heap \<Rightarrow> addr \<Rightarrow> 's \<Rightarrow> 's option" where
  "visit fuel visitor options h tree s =
     map_option snd (visitNode fuel visitor options h tree None None s)"

section \<open>findAll\<close>

text \<open>The predicate of \<^verbatim>\<open>findAll\<close> receives the node only. The visitor that
  \<^verbatim>\<open>findAll\<close> passes to \<^verbatim>\<open>visit\<close> pushes to \<^verbatim>\<open>results\<close> and returns
  \<^verbatim>\<open>undefined\<close>.\<close>

type_synonym 's node_predicate = "'s \<Rightarrow> heap \<Rightarrow> addr \<Rightarrow> bool \<times> 's"

definition findAll_visitor :: "'s node_predicate \<Rightarrow> (addr list \<times> 's) visitor" where
  "findAll_visitor predicate = (\<lambda>(results, s) h node index parent.
     case predicate s h node of
       (True, s') \<Rightarrow> (Continue, (results @ [node], s'))
     | (False, s') \<Rightarrow> (Continue, (results, s')))"

definition findAll ::
  "nat \<Rightarrow> 's node_predicate \<Rightarrow> heap \<Rightarrow> addr \<Rightarrow> 's \<Rightarrow> (addr list \<times> 's) option" where
  "findAll fuel predicate h tree s =
     visit fuel (findAll_visitor predicate) default_options h tree ([], s)"

section \<open>transform\<close>

text \<open>
  A transformer may write to the store (create a replacement node, change a node in
  place); it returns the replacement, or nothing. \<^verbatim>\<open>result || node\<close> keeps the node
  when the result is falsy.

  \<^verbatim>\<open>newChildren\<close> starts as the empty array and is written by index; a write past
  the end of a JavaScript array extends it and leaves holes (\<open>None\<close>) in between.
  An array that still had a hole could not be stored as a children list of nodes; the
  model then returns \<open>None\<close> (both index orders write the positions 0, 1, 2, ... in
  turn, so this does not arise).
\<close>

type_synonym transformer =
  "heap \<Rightarrow> addr \<Rightarrow> nat option \<Rightarrow> addr option \<Rightarrow> addr option \<times> heap"

definition array_set :: "addr option list \<Rightarrow> nat \<Rightarrow> addr \<Rightarrow> addr option list" where
  "array_set xs j v =
     (if j < length xs then xs[j := Some v]
      else xs @ replicate (j - length xs) None @ [Some v])"

definition set_children :: "heap \<Rightarrow> addr \<Rightarrow> addr list \<Rightarrow> heap" where
  "set_children h node cs = h\<lparr>cells := (cells h)(node := (cells h node)\<lparr>children := Some cs\<rparr>)\<rparr>"

definition apply_transformer ::
  "transformer \<Rightarrow> heap \<Rightarrow> addr \<Rightarrow> nat option \<Rightarrow> addr option \<Rightarrow> addr \<times> heap" where
  "apply_transformer transformer h node index parent =
     (case transformer h node index parent of
        (None, h') \<Rightarrow> (node, h')
      | (Some result, h') \<Rightarrow> (result, h'))"

fun transformNode ::
  "nat \<Rightarrow> transformer \<Rightarrow> transformOptions \<Rightarrow> addr \<Rightarrow> nat option \<Rightarrow> addr option \<Rightarrow> heap
    \<Rightarrow> (addr \<times> heap) option"
and transformChildren ::
  "nat \<Rightarrow> transformer \<Rightarrow> transformOptions \<Rightarrow> addr \<Rightarrow> addr list \<Rightarrow> nat list
    \<Rightarrow> addr option list \<Rightarrow> heap \<Rightarrow> (addr option list \<times> heap) option"
where
  "transformNode 0 transformer options node index parent h = None"
| "transformNode (Suc fuel) transformer options node index parent h =
     (case children (cells h node) of
        None \<Rightarrow> Some (apply_transformer transformer h node index parent)
      | Some cs \<Rightarrow>
          (case transformChildren fuel transformer options node cs
                  (indices options (length cs)) [] h of
             None \<Rightarrow> None
           | Some (newChildren, h') \<Rightarrow>
               (case those newChildren of
                  None \<Rightarrow> None
                | Some ncs \<Rightarrow>
                    Some (apply_transformer transformer (set_children h' node ncs)
                            node index parent))))"
| "transformChildren fuel transformer options node cs [] newChildren h =
     Some (newChildren, h)"
| "transformChildren fuel transformer options node cs (i # rest) newChildren h =
     (case transformNode fuel transformer options (cs ! i) (Some i) (Some node) h of
        None \<Rightarrow> None
      | Some (transformed, h') \<Rightarrow>
          transformChildren fuel transformer options node cs rest
            (array_set newChildren (if reverse options then length cs - 1 - i else i)
               transformed) h')"

definition transform ::
  "nat \<Rightarrow> transformer \<Rightarrow> transformOptions \<Rightarrow> heap \<Rightarrow> addr \<Rightarrow> (addr \<times> heap) option" where
  "transform fuel transformer options h tree =
     transformNode fuel transformer options tree None None h"

text \<open>The transformer \<^verbatim>\<open>(node) => node\<close>.\<close>

definition identity :: transformer where
  "identity = (\<lambda>h node index parent. (Some node, h))"

section \<open>filter\<close>

text \<open>
  The predicate's result counts as truthy or falsy. \<^verbatim>\<open>{ ...node, children: filtered }\<close>
  is a new object with the own properties of \<^verbatim>\<open>node\<close> and the new children array.
  The loop \<^verbatim>\<open>for (let i = 0; i < children.length; i++)\<close> runs over \<open>[0..<length cs]\<close>.
\<close>

type_synonym 's predicate =
  "'s \<Rightarrow> heap \<Rightarrow> addr \<Rightarrow> nat option \<Rightarrow> addr option \<Rightarrow> bool \<times> 's"

fun filterNode ::
  "nat \<Rightarrow> 's predicate \<Rightarrow> addr \<Rightarrow> nat option \<Rightarrow> addr option \<Rightarrow> heap \<Rightarrow> 's
    \<Rightarrow> (addr option \<times> heap \<times> 's) option"
and filterChildren ::
  "nat \<Rightarrow> 's predicate \<Rightarrow> addr \<Rightarrow> addr list \<Rightarrow> nat list \<Rightarrow> addr list \<Rightarrow> heap \<Rightarrow> 's
    \<Rightarrow> (addr list \<times> heap \<times> 's) option"
where
  "filterNode 0 predicate node index parent h s = None"
| "filterNode (Suc fuel) predicate node index parent h s =
     (case predicate s h node index parent of
        (False, s') \<Rightarrow> Some (None, h, s')
      | (True, s') \<Rightarrow>
          (case children (cells h node) of
             None \<Rightarrow> Some (Some node, h, s')
           | Some cs \<Rightarrow>
               (case filterChildren fuel predicate node cs [0..<length cs] [] h s' of
                  None \<Rightarrow> None
                | Some (filtered, h', s'') \<Rightarrow>
                    (case alloc h' ((cells h' node)\<lparr>children := Some filtered\<rparr>) of
                       (fresh, h'') \<Rightarrow> Some (Some fresh, h'', s'')))))"
| "filterChildren fuel predicate node cs [] filtered h s = Some (filtered, h, s)"
| "filterChildren fuel predicate node cs (i # rest) filtered h s =
     (case filterNode fuel predicate (cs ! i) (Some i) (Some node) h s of
        None \<Rightarrow> None
      | Some (None, h', s') \<Rightarrow> filterChildren fuel predicate node cs rest filtered h' s'
      | Some (Some result, h', s') \<Rightarrow>
          filterChildren fuel predicate node cs rest (filtered @ [result]) h' s')"

definition filter_tree ::
  "nat \<Rightarrow> 's predicate \<Rightarrow> heap \<Rightarrow> addr \<Rightarrow> 's \<Rightarrow> (addr \<times> heap \<times> 's) option" where
  "filter_tree fuel predicate h tree s =
     (case filterNode fuel predicate tree None None h s of
        None \<Rightarrow> None
      | Some (None, h', s') \<Rightarrow> Some (tree, h', s')
      | Some (Some result, h', s') \<Rightarrow> Some (result, h', s'))"

section \<open>Trees in the store\<close>

text \<open>
  \<open>Tree a ts\<close> is the unfolding of the object graph from the node at \<open>a\<close>:
  \<open>is_tree h t\<close> holds when every node of \<open>t\<close> exists in \<open>h\<close> and the subtrees of
  each node are the unfoldings of its children, in array order. Such a \<open>t\<close> exists
  exactly when no node is its own descendant. \<open>height t\<close> is the nesting depth the
  walkers reach, \<open>deep h t\<close> the content that deep equality compares (identities left
  out, the order of every children array kept).
\<close>

datatype tree = Tree (root: addr) (subtrees: "tree list")

fun is_tree :: "heap \<Rightarrow> tree \<Rightarrow> bool" where
  "is_tree h (Tree a ts) =
     (a < next_free h \<and>
      (case children (cells h a) of
         None \<Rightarrow> ts = []
       | Some cs \<Rightarrow> cs = map root ts \<and> list_all (is_tree h) ts))"

fun max_list :: "nat list \<Rightarrow> nat" where
  "max_list [] = 0"
| "max_list (x # xs) = max x (max_list xs)"

fun height :: "tree \<Rightarrow> nat" where
  "height (Tree a ts) = Suc (max_list (map height ts))"

datatype content = Content string props "content list option"

fun deep :: "heap \<Rightarrow> tree \<Rightarrow> content" where
  "deep h (Tree a ts) =
     Content (ntype (cells h a)) (nprops (cells h a))
       (case children (cells h a) of None \<Rightarrow> None | Some cs \<Rightarrow> Some (map (deep h) ts))"

text \<open>The pre-order sequence of the nodes of a tree, and the pre-order sequence of
  visitor calls (node, index in the parent's children, parent) with the children of
  every node in array order or, when \<open>rv\<close>, in reverse array order.\<close>

fun preorder :: "tree \<Rightarrow> addr list" where
  "preorder (Tree a ts) = a # concat (map preorder ts)"

type_synonym call = "addr \<times> nat option \<times> addr option"

fun calls :: "bool \<Rightarrow> nat option \<Rightarrow> addr option \<Rightarrow> tree \<Rightarrow> call list"
and calls_list :: "bool \<Rightarrow> addr \<Rightarrow> nat \<Rightarrow> tree list \<Rightarrow> call list"
where
  "calls rv index parent (Tree a ts) = (a, index, parent) # calls_list rv a 0 ts"
| "calls_list rv a i [] = []"
| "calls_list rv a i (t # ts) =
     (if rv then calls_list rv a (Suc i) ts @ calls rv (Some i) (Some a) t
      else calls rv (Some i) (Some a) t @ calls_list rv a (Suc i) ts)"

text \<open>Running a visitor over a sequence of calls, one after the other, up to and
  including the first call that returns \<open>Stop\<close>: the final state with the flag
  "not stopped", and the calls made.\<close>

fun run :: "'s visitor \<Rightarrow> heap \<Rightarrow> call list \<Rightarrow> 's \<Rightarrow> bool \<times> 's" where
  "run visitor h [] s = (True, s)"
| "run visitor h ((node, index, parent) # rest) s =
     (case visitor s h node index parent of
        (Stop, s') \<Rightarrow> (False, s')
      | (Continue, s') \<Rightarrow> run visitor h rest s')"

fun made :: "'s visitor \<Rightarrow> heap \<Rightarrow> call list \<Rightarrow> 's \<Rightarrow> call list" where
  "made visitor h [] s = []"
| "made visitor h ((node, index, parent) # rest) s =
     (node, index, parent) #
     (case visitor s h node index parent of
        (Stop, s') \<Rightarrow> []
      | (Continue, s') \<Rightarrow> made visitor h rest s')"

text \<open>A visitor wrapped so that it records each of its invocations.\<close>

definition logged :: "'s visitor \<Rightarrow> ('s \<times> call list) visitor" where
  "logged visitor = (\<lambda>(s, log) h node index parent.
     case visitor s h node index parent of
       (result, s') \<Rightarrow> (result, (s', log @ [(node, index, parent)])))"

text \<open>Selecting from a sequence of nodes those a predicate holds for, the predicate
  applied to each node in turn.\<close>

fun select :: "'s node_predicate \<Rightarrow> heap \<Rightarrow> addr list \<Rightarrow> 's \<Rightarrow> addr list \<times> 's" where
  "select predicate h [] s = ([], s)"
| "select predicate h (node # rest) s =
     (case predicate s h node of
        (keep, s') \<Rightarrow>
          (case select predicate h rest s' of
             (found, s'') \<Rightarrow> (if keep then node # found else found, s'')))"

text \<open>A store \<open>h'\<close> extends \<open>h\<close> when every object of \<open>h\<close> is in \<open>h'\<close> with the
  same properties.\<close>

definition extends :: "heap \<Rightarrow> heap \<Rightarrow> bool" where
  "extends h h' = (next_free h \<le> next_free h' \<and> (\<forall>a < next_free h. cells h' a = cells h a))"

section \<open>Example stores and callbacks\<close>

text \<open>A root with two cells, the first with one child: pre-order 0, 1, 3, 2. And a
  store whose only node is a leaf.\<close>

definition leaf :: "string \<Rightarrow> node" where
  "leaf ty = \<lparr>ntype = ty, nprops = [], children = None\<rparr>"

definition parent_of :: "string \<Rightarrow> addr list \<Rightarrow> node" where
  "parent_of ty cs = \<lparr>ntype = ty, nprops = [], children = Some cs\<rparr>"

definition example_cells :: "addr \<Rightarrow> node" where
  "example_cells a =
     (if a = 0 then parent_of ''root'' [1, 2]
      else if a = 1 then parent_of ''cell'' [3]
      else if a = 2 then leaf ''raw''
      else leaf ''code'')"

definition example_heap :: heap where
  "example_heap = \<lparr>cells = example_cells, next_free = 4\<rparr>"

definition example_tree :: tree where
  "example_tree = Tree 0 [Tree 1 [Tree 3 []], Tree 2 []]"

definition leaf_heap :: heap where
  "leaf_heap = \<lparr>cells = (\<lambda>a. leaf ''raw''), next_free = 1\<rparr>"

definition stop_at :: "addr \<Rightarrow> unit visitor" where
  "stop_at a = (\<lambda>s h node index parent. (if node = a then Stop else Continue, s))"

definition accept_all :: "unit predicate" where
  "accept_all = (\<lambda>s h node index parent. (True, s))"

definition reject_node :: "addr \<Rightarrow> unit predicate" where
  "reject_node a = (\<lambda>s h node index parent. (node \<noteq> a, s))"

definition has_type :: "string \<Rightarrow> heap \<Rightarrow> addr \<Rightarrow> bool" where
  "has_type ty h node = (ntype (cells h node) = ty)"

section \<open>Properties of the MIME classifier\<close>

lemmas mime_tests =
  isWidgetMimeType_def isVisualizationMimeType_def isImageMimeType_def isJsonMimeType_def
  isBinaryMimeType_def isTextMimeType_def array_includes_def startsWith_def endsWith_def
  TEXT_CONTENT_TYPES_def BINARY_CONTENT_TYPES_def JSON_CONTENT_TYPES_def
  IMAGE_CONTENT_TYPES_def

lemma vegalite_v5_tests:
  "isJsonMimeType VEGALITE_V5" "getMimeTypeCategory VEGALITE_V5 = Visualization"
  by (simp_all add: getMimeTypeCategory_def mime_tests)

text \<open>
  Claim C2. \<open>getMimeTypeCategory\<close> applies the tests in the order widget,
  visualization, image, json, binary, text and returns the category of the first test
  that matches, \<open>Unknown\<close> when none does. The identifier
  \<^verbatim>\<open>application/vnd.vegalite.v5+json\<close> passes the json test (its suffix is
  \<^verbatim>\<open>+json\<close>) and is classified as a visualization all the same.
\<close>

theorem getMimeTypeCategory_precedence:
  "getMimeTypeCategory m = first_match category_tests m \<and>
   isJsonMimeType VEGALITE_V5 \<and>
   getMimeTypeCategory VEGALITE_V5 = Visualization \<and>
   getMimeTypeCategory VEGALITE_V5 \<noteq> Json"
proof (intro conjI)
  show "getMimeTypeCategory m = first_match category_tests m"
    by (simp add: getMimeTypeCategory_def category_tests_def)
  show "isJsonMimeType VEGALITE_V5" by (rule vegalite_v5_tests)
  show "getMimeTypeCategory VEGALITE_V5 = Visualization" by (rule vegalite_v5_tests)
  then show "getMimeTypeCategory VEGALITE_V5 \<noteq> Json" by simp
qed

theorem getMimeTypeCategory_precedence_witness:
  "getMimeTypeCategory IMAGE_SVG = Image \<and>
   first_match category_tests IMAGE_SVG = Image \<and> isTextMimeType IMAGE_SVG"
  using getMimeTypeCategory_precedence [of IMAGE_SVG]
  by (simp add: getMimeTypeCategory_def mime_tests)

lemma binary_not_image: "isBinaryMimeType m \<Longrightarrow> \<not> isImageMimeType m \<Longrightarrow> m = APPLICATION_PDF"
  by (auto simp: isBinaryMimeType_def isImageMimeType_def array_includes_def startsWith_def
        BINARY_CONTENT_TYPES_def)

lemma pdf_category: "getMimeTypeCategory APPLICATION_PDF = Binary"
  by (simp add: getMimeTypeCategory_def mime_tests)

text \<open>
  Claim C10. \<open>getMimeTypeCategory\<close> returns \<open>Binary\<close> for the identifier
  \<^verbatim>\<open>application/pdf\<close> and for no other: the other members of the binary list start
  with \<^verbatim>\<open>image/\<close> and are taken by the image test.
\<close>

theorem getMimeTypeCategory_binary_iff_pdf:
  "getMimeTypeCategory m = Binary \<longleftrightarrow> m = APPLICATION_PDF"
proof
  assume "getMimeTypeCategory m = Binary"
  then have "isBinaryMimeType m" and "\<not> isImageMimeType m"
    by (auto simp: getMimeTypeCategory_def split: if_splits)
  then show "m = APPLICATION_PDF" by (rule binary_not_image)
next
  assume "m = APPLICATION_PDF"
  then show "getMimeTypeCategory m = Binary" by (simp add: pdf_category)
qed

theorem getMimeTypeCategory_binary_iff_pdf_witness:
  "getMimeTypeCategory IMAGE_PNG \<noteq> Binary \<and> isBinaryMimeType IMAGE_PNG \<and>
   getMimeTypeCategory IMAGE_PNG = Image"
  using getMimeTypeCategory_binary_iff_pdf [of IMAGE_PNG]
  by (simp add: getMimeTypeCategory_def mime_tests)

lemma text_list_categories:
  "getMimeTypeCategory TEXT_PLAIN = Text" "getMimeTypeCategory TEXT_HTML = Text"
  "getMimeTypeCategory TEXT_MARKDOWN = Text" "getMimeTypeCategory TEXT_LATEX = Text"
  "getMimeTypeCategory TEXT_CSV = Text" "getMimeTypeCategory TEXT_XML = Text"
  "getMimeTypeCategory APPLICATION_JAVASCRIPT = Text"
  by (simp_all add: getMimeTypeCategory_def mime_tests)

lemma isTextMimeType_cases:
  "isTextMimeType m \<longleftrightarrow>
     m = TEXT_PLAIN \<or> m = TEXT_HTML \<or> m = TEXT_MARKDOWN \<or> m = TEXT_LATEX \<or>
     m = TEXT_CSV \<or> m = TEXT_XML \<or> m = APPLICATION_JAVASCRIPT \<or> m = IMAGE_SVG"
  unfolding isTextMimeType_def array_includes_def TEXT_CONTENT_TYPES_def by simp

lemma isTextMimeType_category:
  "isTextMimeType m \<longleftrightarrow> getMimeTypeCategory m = Text \<or> m = IMAGE_SVG"
proof
  assume "isTextMimeType m"
  then have "m = TEXT_PLAIN \<or> m = TEXT_HTML \<or> m = TEXT_MARKDOWN \<or> m = TEXT_LATEX \<or>
     m = TEXT_CSV \<or> m = TEXT_XML \<or> m = APPLICATION_JAVASCRIPT \<or> m = IMAGE_SVG"
    by (simp only: isTextMimeType_cases)
  then show "getMimeTypeCategory m = Text \<or> m = IMAGE_SVG"
    by (elim disjE) (simp_all only: text_list_categories simp_thms)
next
  assume "getMimeTypeCategory m = Text \<or> m = IMAGE_SVG"
  then show "isTextMimeType m"
  proof
    assume "getMimeTypeCategory m = Text"
    then show ?thesis by (simp add: getMimeTypeCategory_def split: if_splits)
  next
    assume "m = IMAGE_SVG"
    then show ?thesis by (simp only: isTextMimeType_cases simp_thms)
  qed
qed

text \<open>
  Claim C4, as stated, fails: \<^verbatim>\<open>image/svg+xml\<close> has category image, not text, and
  a sequence payload under it is concatenated, not returned unchanged.
\<close>

theorem normalizeMimeData_svg_is_joined:
  "getMimeTypeCategory IMAGE_SVG = Image \<and>
   getMimeTypeCategory IMAGE_SVG \<noteq> Text \<and>
   normalizeMimeData IMAGE_SVG (PArray [''a'', ''b'']) = PString ''ab'' \<and>
   normalizeMimeData IMAGE_SVG (PArray [''a'', ''b'']) \<noteq> PArray [''a'', ''b'']"
  by (simp add: getMimeTypeCategory_def mime_tests join_empty_def)

text \<open>
  Claim C4, amended. \<open>normalizeMimeData\<close> returns the concatenation of the payload's
  elements, in order and with no separator, exactly when the payload is a sequence and
  the identifier passes the text test \<open>isTextMimeType\<close> (it is in the fixed text
  list), that is, when its category is text or it is \<^verbatim>\<open>image/svg+xml\<close>; in every
  other case it returns the payload unchanged. The two examples of the specification
  hold.
\<close>

theorem normalizeMimeData_joins_text_list:
  "normalizeMimeData m d =
     (if (getMimeTypeCategory m = Text \<or> m = IMAGE_SVG) \<and> isArray d
      then PString (concat (elements d)) else d) \<and>
   (isTextMimeType m \<longleftrightarrow> getMimeTypeCategory m = Text \<or> m = IMAGE_SVG) \<and>
   normalizeMimeData TEXT_PLAIN (PArray [''a'', ''b'', ''c'']) = PString ''abc'' \<and>
   normalizeMimeData IMAGE_PNG (PArray [''a'', ''b'']) = PArray [''a'', ''b'']"
proof (intro conjI)
  show "normalizeMimeData m d =
     (if (getMimeTypeCategory m = Text \<or> m = IMAGE_SVG) \<and> isArray d
      then PString (concat (elements d)) else d)"
    by (cases d) (simp_all add: isTextMimeType_category [symmetric] join_empty_def)
  show "isTextMimeType m \<longleftrightarrow> getMimeTypeCategory m = Text \<or> m = IMAGE_SVG"
    by (rule isTextMimeType_category)
  show "normalizeMimeData TEXT_PLAIN (PArray [''a'', ''b'', ''c'']) = PString ''abc''"
    by (simp add: isTextMimeType_cases join_empty_def)
  show "normalizeMimeData IMAGE_PNG (PArray [''a'', ''b'']) = PArray [''a'', ''b'']"
    by (simp add: isTextMimeType_cases)
qed

theorem normalizeMimeData_joins_text_list_witness:
  "normalizeMimeData TEXT_HTML (PArray [''<b>'', ''x'', ''</b>'']) = PString ''<b>x</b>'' \<and>
   normalizeMimeData APPLICATION_JSON (PArray [''a'', ''b'']) = PArray [''a'', ''b''] \<and>
   normalizeMimeData TEXT_HTML (POther 0) = POther 0"
  using normalizeMimeData_joins_text_list [of TEXT_HTML "PArray [''<b>'', ''x'', ''</b>'']"]
    normalizeMimeData_joins_text_list [of APPLICATION_JSON "PArray [''a'', ''b'']"]
  by (simp add: text_list_categories getMimeTypeCategory_def mime_tests)

lemma getMimeTypePriority_own:
  "\<not> array_includes OBJECT_PROTOTYPE_KEYS m \<Longrightarrow> getMimeTypePriority m = Number (table_score m)"
  by (simp add: getMimeTypePriority_def getProperty_def table_score_def split: option.splits)

lemma reducer_own:
  "\<not> array_includes OBJECT_PROTOTYPE_KEYS best \<Longrightarrow>
   \<not> array_includes OBJECT_PROTOTYPE_KEYS current \<Longrightarrow>
   reducer best current = (if table_score current > table_score best then current else best)"
  by (simp add: reducer_def getMimeTypePriority_own)

lemma first_best_step:
  assumes "first_best pre = Some best"
  shows "first_best (pre @ [x]) =
           Some (if table_score x > table_score best then x else best)"
proof -
  let ?P = "\<lambda>xs m. \<forall>m' \<in> set xs. table_score m' \<le> table_score m"
  have max_iff: "maximal_in xs m = ?P xs m" for xs m
    by (simp add: maximal_in_def list_all_iff)
  from assms obtain i where i: "i < length pre" "?P pre (pre ! i)" "best = pre ! i"
    "\<forall>j < i. \<not> ?P pre (pre ! j)"
    unfolding first_best_def find_Some_iff max_iff by blast
  show ?thesis
  proof (cases "table_score x > table_score best")
    case True
    have "?P (pre @ [x]) x" using i(2,3) True by fastforce
    moreover have "\<not> ?P (pre @ [x]) (pre ! j)" if "j < length pre" for j
    proof -
      have "table_score (pre ! j) \<le> table_score best" using i(2,3) that by simp
      then show ?thesis using True by auto
    qed
    ultimately have "find (maximal_in (pre @ [x])) (pre @ [x]) = Some x"
      unfolding find_Some_iff max_iff
      by (intro exI[of _ "length pre"]) (simp add: nth_append)
    then show ?thesis using True by (simp add: first_best_def)
  next
    case False
    have "?P (pre @ [x]) best" using i(2,3) False by auto
    moreover have "\<not> ?P (pre @ [x]) (pre ! j)" if "j < i" for j
      using i(4) that by auto
    ultimately have "find (maximal_in (pre @ [x])) (pre @ [x]) = Some best"
      unfolding find_Some_iff max_iff using i(1,3)
      by (intro exI[of _ i]) (simp add: nth_append)
    then show ?thesis using False by (simp add: first_best_def)
  qed
qed

lemma foldl_reducer_first_best:
  "own_names_only (pre @ rest) \<Longrightarrow> first_best pre = Some best \<Longrightarrow>
     first_best (pre @ rest) = Some (foldl reducer best rest)"
proof (induction rest arbitrary: pre best)
  case Nil
  then show ?case by simp
next
  case (Cons x rest)
  have "best \<in> set pre"
    using Cons.prems(2) unfolding first_best_def find_Some_iff by auto
  then have "reducer best x = (if table_score x > table_score best then x else best)"
    using Cons.prems(1) by (intro reducer_own) (auto simp: own_names_only_def list_all_iff)
  then have "first_best (pre @ [x]) = Some (reducer best x)"
    using first_best_step[OF Cons.prems(2), of x] by simp
  from Cons.IH[OF _ this] Cons.prems(1) show ?case by simp
qed

text \<open>
  Beside claim C1: for a list none of whose identifiers is a name inherited from
  \<^verbatim>\<open>Object.prototype\<close>, \<open>selectBestMimeType\<close> returns the first identifier of
  maximal table score (the first of the list when all score 0), and \<open>None\<close> for the
  empty list.
\<close>

theorem selectBestMimeType_first_best:
  assumes "own_names_only ms"
  shows "selectBestMimeType ms = first_best ms"
proof (cases ms)
  case Nil
  then show ?thesis by (simp add: selectBestMimeType_def first_best_def)
next
  case (Cons m rest)
  have "first_best [m] = Some m" by (simp add: first_best_def maximal_in_def)
  from foldl_reducer_first_best[OF _ this, of rest] assms Cons
  have "first_best ms = Some (foldl reducer m rest)" by simp
  then show ?thesis using Cons by (cases rest) (simp_all add: selectBestMimeType_def)
qed

lemmas priority_eval =
  selectBestMimeType_def reducer_def getMimeTypePriority_def getProperty_def
  MIME_TYPE_PRIORITY_def OBJECT_PROTOTYPE_KEYS_def array_includes_def table_score_def

theorem selectBestMimeType_first_best_witness:
  "own_names_only [TEXT_PLAIN, TEXT_HTML, IMAGE_PNG] \<and>
   selectBestMimeType [TEXT_PLAIN, TEXT_HTML, IMAGE_PNG] = Some TEXT_HTML \<and>
   first_best [TEXT_PLAIN, TEXT_HTML, IMAGE_PNG] = Some TEXT_HTML"
proof -
  have own: "own_names_only [TEXT_PLAIN, TEXT_HTML, IMAGE_PNG]"
    by (simp add: own_names_only_def array_includes_def OBJECT_PROTOTYPE_KEYS_def)
  have "selectBestMimeType [TEXT_PLAIN, TEXT_HTML, IMAGE_PNG] = Some TEXT_HTML"
    by (simp add: priority_eval)
  then show ?thesis using own selectBestMimeType_first_best [OF own] by simp
qed

text \<open>
  Claim C1 fails on the code for a list that holds a name every object literal
  inherits. The read \<^verbatim>\<open>MIME_TYPE_PRIORITY["constructor"]\<close> yields the inherited
  function, not \<^verbatim>\<open>undefined\<close>, so \<^verbatim>\<open>?? 0\<close> does not apply; comparing it with a
  number is false either way, and \<^verbatim>\<open>reduce\<close> keeps \<^verbatim>\<open>"constructor"\<close> (table
  score 0) although \<^verbatim>\<open>"text/html"\<close> (score 100) is in the list.
\<close>

theorem selectBestMimeType_inherited_name:
  "selectBestMimeType [''constructor'', TEXT_HTML] = Some ''constructor'' \<and>
   getMimeTypePriority ''constructor'' = Inherited ''constructor'' \<and>
   table_score ''constructor'' = 0 \<and> table_score TEXT_HTML = 100 \<and>
   first_best [''constructor'', TEXT_HTML] = Some TEXT_HTML"
  by (simp add: priority_eval first_best_def maximal_in_def)

section \<open>Properties of the tree walker\<close>

subsection \<open>Trees, heights and indices\<close>

lemma max_list_ge: "x \<in> set xs \<Longrightarrow> x \<le> max_list xs"
  by (induction xs) auto

lemma height_subtree: "t \<in> set ts \<Longrightarrow> height (Tree a ts) \<le> Suc fuel \<Longrightarrow> height t \<le> fuel"
  using max_list_ge[of "height t" "map height ts"] by simp

lemma rev_indices: "map (\<lambda>i. n - 1 - i) [0..<n] = rev [0..<n]"
  by (rule nth_equalityI) (simp_all add: rev_nth)

lemma indices_eq: "indices options n = (if reverse options then rev [0..<n] else [0..<n])"
  unfolding indices_def rev_indices by simp

lemma indices_bound: "i \<in> set (indices options n) \<Longrightarrow> i < n"
  by (simp add: indices_eq split: if_splits)

lemma upt_0_Suc: "[0..<Suc n] = 0 # map Suc [0..<n]"
  by (simp add: upt_conv_Cons map_Suc_upt del: upt_Suc)

lemma map_nth_upt: "map (\<lambda>i. f (xs ! i)) [0..<length xs] = map f xs"
  by (rule nth_equalityI) simp_all

lemma example_is_tree: "is_tree example_heap example_tree"
  by (simp add: example_heap_def example_tree_def example_cells_def leaf_def parent_of_def)

lemma example_height: "height example_tree \<le> 3"
  by (simp add: example_tree_def)

lemmas example_eval =
  example_heap_def example_cells_def example_tree_def leaf_def parent_of_def
  eval_nat_numeral indices_def

subsection \<open>visit is a sequential run over the pre-order calls\<close>

lemma run_append:
  "run visitor h (xs @ ys) s =
     (case run visitor h xs s of (True, s') \<Rightarrow> run visitor h ys s' | (False, s') \<Rightarrow> (False, s'))"
  by (induction xs arbitrary: s) (auto split: prod.splits signal.splits)

lemma calls_list_forward:
  "calls_list False a k ts =
     concat (map (\<lambda>i. calls False (Some (k + i)) (Some a) (ts ! i)) [0..<length ts])"
proof (induction ts arbitrary: k)
  case Nil
  show ?case by simp
next
  case (Cons t ts)
  show ?case by (simp add: upt_0_Suc Cons.IH comp_def del: upt_Suc)
qed

lemma calls_list_reverse:
  "calls_list True a k ts =
     concat (map (\<lambda>i. calls True (Some (k + i)) (Some a) (ts ! i)) (rev [0..<length ts]))"
proof (induction ts arbitrary: k)
  case Nil
  show ?case by simp
next
  case (Cons t ts)
  show ?case by (simp add: upt_0_Suc Cons.IH comp_def rev_map del: upt_Suc)
qed

lemma calls_list_indices:
  "concat (map (\<lambda>i. calls (reverse options) (Some i) (Some a) (ts ! i))
     (indices options (length ts))) = calls_list (reverse options) a 0 ts"
  using calls_list_forward[of a 0 ts] calls_list_reverse[of a 0 ts]
  by (simp add: indices_eq)

lemma visitChildren_run:
  assumes IH: "\<And>t index parent s. is_tree h t \<Longrightarrow> height t \<le> fuel \<Longrightarrow>
      visitNode fuel visitor options h (root t) index parent s =
        Some (run visitor h (calls rv index parent t) s)"
    and ts: "list_all (is_tree h) ts" "\<forall>t \<in> set ts. height t \<le> fuel"
  shows "\<forall>i \<in> set idxs. i < length ts \<Longrightarrow>
    visitChildren fuel visitor options h a (map root ts) idxs s =
      Some (run visitor h (concat (map (\<lambda>i. calls rv (Some i) (Some a) (ts ! i)) idxs)) s)"
proof (induction idxs arbitrary: s)
  case Nil
  show ?case by simp
next
  case (Cons i idxs)
  have i: "i < length ts" using Cons.prems by simp
  then have t: "is_tree h (ts ! i)" "height (ts ! i) \<le> fuel"
    using ts by (simp_all add: list_all_length)
  have rest: "\<forall>i \<in> set idxs. i < length ts" using Cons.prems by simp
  show ?case
    using IH[OF t, of "Some i" "Some a" s] Cons.IH[OF rest] i
    by (simp add: run_append split: prod.splits)
qed

lemma visitNode_run:
  "is_tree h t \<Longrightarrow> height t \<le> fuel \<Longrightarrow>
     visitNode fuel visitor options h (root t) index parent s =
       Some (run visitor h (calls (reverse options) index parent t) s)"
proof (induction fuel arbitrary: t index parent s)
  case 0
  then show ?case by (cases t) simp
next
  case (Suc fuel)
  obtain a ts where t: "t = Tree a ts" by (cases t)
  show ?case
  proof (cases "children (cells h a)")
    case None
    then show ?thesis using Suc.prems t by (simp split: prod.splits signal.splits)
  next
    case (Some cs)
    then have cs: "cs = map root ts" and ts: "list_all (is_tree h) ts"
      using Suc.prems t by simp_all
    have hts: "\<forall>t \<in> set ts. height t \<le> fuel"
      using Suc.prems(2) t height_subtree by blast
    have bound: "\<forall>i \<in> set (indices options (length cs)). i < length ts"
      using indices_bound cs by auto
    have "visitChildren fuel visitor options h a (map root ts) (indices options (length cs)) s' =
        Some (run visitor h (calls_list (reverse options) a 0 ts) s')" for s'
      using visitChildren_run[OF Suc.IH ts hts bound, of a s'] calls_list_indices[of options a ts] cs
      by simp
    then show ?thesis using Some t cs
      by (simp split: prod.splits signal.splits)
  qed
qed

lemma visit_run:
  "is_tree h t \<Longrightarrow> height t \<le> fuel \<Longrightarrow>
     visit fuel visitor options h (root t) s =
       Some (snd (run visitor h (calls (reverse options) None None t) s))"
  by (simp add: visit_def visitNode_run)

lemma run_logged:
  "run (logged visitor) h cs (s, log) =
     (fst (run visitor h cs s), (snd (run visitor h cs s), log @ made visitor h cs s))"
  by (induction cs arbitrary: s log)
     (auto simp: logged_def split: prod.splits signal.splits)

lemma visit_logged:
  "is_tree h t \<Longrightarrow> height t \<le> fuel \<Longrightarrow>
     visit fuel (logged visitor) options h (root t) (s, []) =
       Some (snd (run visitor h (calls (reverse options) None None t) s),
             made visitor h (calls (reverse options) None None t) s)"
  using visit_run[of h t fuel "logged visitor" options "(s, [])"]
  by (simp add: run_logged)

lemma made_stop_first:
  "fst (visitor s h (root t) None None) = Stop \<Longrightarrow>
     made visitor h (calls rv None None t) s = [(root t, None, None)] \<and>
     snd (run visitor h (calls rv None None t) s) = snd (visitor s h (root t) None None)"
  by (cases t) (auto split: prod.splits signal.splits)

text \<open>
  Claim C5. On a tree (with fuel for its height), \<open>visit\<close> makes the visitor calls
  of the depth-first pre-order sequence one after the other, up to and including the
  first call that returns the stop signal; no call is made after it, whether on a
  sibling or on a remaining child of an ancestor (\<open>made\<close> ends there). A visitor that
  returns the stop signal on its first invocation is invoked exactly once, on the root.
\<close>

theorem visit_preorder_until_stop:
  assumes "is_tree h t" and "height t \<le> fuel"
  shows "visit fuel visitor options h (root t) s =
           Some (snd (run visitor h (calls (reverse options) None None t) s)) \<and>
         visit fuel (logged visitor) options h (root t) (s, []) =
           Some (snd (run visitor h (calls (reverse options) None None t) s),
                 made visitor h (calls (reverse options) None None t) s) \<and>
         (fst (visitor s h (root t) None None) = Stop \<longrightarrow>
           visit fuel (logged visitor) options h (root t) (s, []) =
             Some (snd (visitor s h (root t) None None), [(root t, None, None)]))"
proof (intro conjI impI)
  show "visit fuel visitor options h (root t) s =
      Some (snd (run visitor h (calls (reverse options) None None t) s))"
    using assms by (rule visit_run)
  show "visit fuel (logged visitor) options h (root t) (s, []) =
      Some (snd (run visitor h (calls (reverse options) None None t) s),
            made visitor h (calls (reverse options) None None t) s)"
    using assms by (rule visit_logged)
  assume "fst (visitor s h (root t) None None) = Stop"
  with made_stop_first[of visitor s h t "reverse options"]
  show "visit fuel (logged visitor) options h (root t) (s, []) =
      Some (snd (visitor s h (root t) None None), [(root t, None, None)])"
    by (simp add: visit_logged[OF assms])
qed

theorem visit_preorder_until_stop_witness:
  "is_tree example_heap example_tree \<and> height example_tree \<le> 3 \<and>
   fst (stop_at 0 () example_heap (root example_tree) None None) = Stop \<and>
   visit 3 (logged (stop_at 0)) default_options example_heap 0 ((), []) =
     Some ((), [(0, None, None)]) \<and>
   visit 3 (logged (stop_at 3)) default_options example_heap 0 ((), []) =
     Some ((), [(0, None, None), (1, Some 0, Some 0), (3, Some 0, Some 1)]) \<and>
   visit 3 (logged (stop_at 4)) default_options example_heap 0 ((), []) =
     Some ((), [(0, None, None), (1, Some 0, Some 0), (3, Some 0, Some 1),
                (2, Some 1, Some 0)])"
  using example_is_tree example_height
    visit_preorder_until_stop [OF example_is_tree example_height, of "stop_at 0" default_options "()"]
    visit_preorder_until_stop [OF example_is_tree example_height, of "stop_at 3" default_options "()"]
    visit_preorder_until_stop [OF example_is_tree example_height, of "stop_at 4" default_options "()"]
  by (simp add: example_tree_def stop_at_def default_options_def)

subsection \<open>findAll\<close>

lemma preorder_calls:
  "map fst (calls False index parent t) = preorder t"
  "map fst (calls_list False a k ts) = concat (map preorder ts)"
  by (induction False index parent t and False a k ts rule: calls_calls_list.induct)
     (simp_all add: map_concat)

lemma run_findAll_visitor:
  "run (findAll_visitor predicate) h cs (results, s) =
     (True, (results @ fst (select predicate h (map fst cs) s),
             snd (select predicate h (map fst cs) s)))"
  by (induction cs arbitrary: results s)
     (auto simp: findAll_visitor_def split: prod.splits bool.splits)

lemma made_findAll_visitor:
  "made (findAll_visitor predicate) h cs (results, s) = cs"
  by (induction cs arbitrary: results s)
     (auto simp: findAll_visitor_def split: prod.splits bool.splits)

lemma select_pure:
  "select (\<lambda>s h node. (p h node, s)) h nodes s = (filter (p h) nodes, s)"
  by (induction nodes arbitrary: s) auto

lemma findAll_select:
  "is_tree h t \<Longrightarrow> height t \<le> fuel \<Longrightarrow>
     findAll fuel predicate h (root t) s = Some (select predicate h (preorder t) s)"
  using visit_run[of h t fuel "findAll_visitor predicate" default_options "([], s)"]
  by (simp add: findAll_def run_findAll_visitor default_options_def preorder_calls)

text \<open>
  Claim C7. On a tree, \<open>findAll\<close> returns the nodes of the pre-order sequence for
  which the predicate holds, in that order (for a predicate without state of its own:
  the pre-order sequence filtered by it), and its visitor is invoked on every node of
  the pre-order sequence: the traversal is not stopped early.
\<close>

theorem findAll_preorder_select:
  assumes "is_tree h t" and "height t \<le> fuel"
  shows "findAll fuel predicate h (root t) s = Some (select predicate h (preorder t) s) \<and>
         findAll fuel (\<lambda>s h node. (p h node, s)) h (root t) s =
           Some (filter (p h) (preorder t), s) \<and>
         map_option (map fst \<circ> snd)
           (visit fuel (logged (findAll_visitor predicate)) default_options h (root t)
              (([], s), [])) = Some (preorder t)"
  using findAll_select[OF assms, of predicate s]
    findAll_select[OF assms, of "\<lambda>s h node. (p h node, s)" s]
    visit_logged[OF assms, of "findAll_visitor predicate" default_options "([], s)"]
  by (simp add: select_pure made_findAll_visitor default_options_def preorder_calls)

theorem findAll_preorder_select_witness:
  "is_tree example_heap example_tree \<and> height example_tree \<le> 3 \<and>
   findAll 3 (\<lambda>s h node. (\<not> has_type ''root'' h node, s)) example_heap 0 () =
     Some ([1, 3, 2], ()) \<and>
   findAll 3 (\<lambda>s h node. (has_type ''code'' h node, s)) example_heap 0 () = Some ([3], ())"
  using example_is_tree example_height
    findAll_preorder_select [OF example_is_tree example_height,
      of "\<lambda>s h node. (\<not> has_type ''root'' h node, s)" "()" "\<lambda>h node. \<not> has_type ''root'' h node"]
    findAll_preorder_select [OF example_is_tree example_height,
      of "\<lambda>s h node. (has_type ''code'' h node, s)" "()" "has_type ''code''"]
  by (simp add: example_tree_def has_type_def example_heap_def example_cells_def
        leaf_def parent_of_def)

subsection \<open>transform\<close>

lemma those_map_Some: "those (map Some xs) = Some xs"
  by (induction xs) simp_all

lemma children_update_same:
  "children n = Some cs \<Longrightarrow> n\<lparr>children := Some cs\<rparr> = (n :: node)"
  by (cases n) simp

lemma set_children_same: "children (cells h a) = Some cs \<Longrightarrow> set_children h a cs = h"
  by (simp add: set_children_def children_update_same)

lemma apply_identity: "apply_transformer identity h a index parent = (a, h)"
  by (simp add: apply_transformer_def identity_def)

lemma transformChildren_identity:
  assumes IH: "\<And>t index parent. is_tree h t \<Longrightarrow> height t \<le> fuel \<Longrightarrow>
      transformNode fuel identity default_options (root t) index parent h = Some (root t, h)"
    and ts: "list_all (is_tree h) ts" "\<forall>t \<in> set ts. height t \<le> fuel"
  shows "j \<le> length ts \<Longrightarrow>
    transformChildren fuel identity default_options a (map root ts) [j..<length ts]
       (map Some (take j (map root ts))) h = Some (map Some (map root ts), h)"
proof (induction "length ts - j" arbitrary: j)
  case 0
  then show ?case by simp
next
  case (Suc d)
  then have j: "j < length ts" by simp
  then have t: "is_tree h (ts ! j)" "height (ts ! j) \<le> fuel"
    using ts by (simp_all add: list_all_length)
  have step: "array_set (map Some (take j (map root ts))) j (root (ts ! j)) =
      map Some (take (Suc j) (map root ts))"
    using j by (simp add: array_set_def take_Suc_conv_app_nth)
  have "d = length ts - Suc j" "Suc j \<le> length ts" using Suc.hyps(2) j by simp_all
  from Suc.hyps(1)[OF this] show ?case
    using j IH[OF t] step
    by (simp add: upt_conv_Cons default_options_def del: upt_Suc)
qed

lemma transformNode_identity:
  "is_tree h t \<Longrightarrow> height t \<le> fuel \<Longrightarrow>
     transformNode fuel identity default_options (root t) index parent h = Some (root t, h)"
proof (induction fuel arbitrary: t index parent)
  case 0
  then show ?case by (cases t) simp
next
  case (Suc fuel)
  obtain a ts where t: "t = Tree a ts" by (cases t)
  show ?case
  proof (cases "children (cells h a)")
    case None
    then show ?thesis using t by (simp add: apply_identity)
  next
    case (Some cs)
    then have cs: "cs = map root ts" and ts: "list_all (is_tree h) ts"
      using Suc.prems t by simp_all
    have hts: "\<forall>t \<in> set ts. height t \<le> fuel"
      using Suc.prems(2) t height_subtree by blast
    have "transformChildren fuel identity default_options a (map root ts) [0..<length ts] [] h =
        Some (map Some (map root ts), h)"
      using transformChildren_identity[OF Suc.IH ts hts, of 0 a] by simp
    then have "transformChildren fuel identity default_options a cs
        (indices default_options (length cs)) [] h = Some (map Some cs, h)"
      by (simp add: cs indices_eq default_options_def)
    then show ?thesis using Some t
      by (simp add: those_map_Some set_children_same apply_identity)
  qed
qed

text \<open>
  Claim C8. On a tree, \<open>transform\<close> with the identity transformer and the default
  options returns the root it was given and leaves every node as it was; the result is
  deep-equal to the input, the order of every children array included.
\<close>

theorem transform_identity_default:
  assumes "is_tree h t" and "height t \<le> fuel"
  shows "transform fuel identity default_options h (root t) = Some (root t, h) \<and>
         (\<exists>r h' t'. transform fuel identity default_options h (root t) = Some (r, h') \<and>
            is_tree h' t' \<and> root t' = r \<and> deep h' t' = deep h t)"
  using assms by (auto simp: transform_def transformNode_identity)

theorem transform_identity_default_witness:
  "is_tree example_heap example_tree \<and> height example_tree \<le> 3 \<and>
   transform 3 identity default_options example_heap 0 = Some (0, example_heap) \<and>
   children (cells example_heap 0) = Some [1, 2]"
  using example_is_tree example_height
    transform_identity_default [OF example_is_tree example_height]
  by (simp add: example_tree_def example_heap_def example_cells_def parent_of_def)

text \<open>
  Claim C3 fails on the code: with \<^verbatim>\<open>reverse\<close> the children are transformed last to
  first and the result for \<^verbatim>\<open>children[i]\<close> is stored at position
  \<^verbatim>\<open>children.length - 1 - i\<close>, so every children array ends up reversed. Here the
  root's children \<open>[1, 2]\<close> become \<open>[2, 1]\<close> under the identity transformer.
\<close>

theorem transform_reverse_reverses_children:
  "children (cells example_heap 0) = Some [1, 2] \<and>
   map_option fst (transform 3 identity \<lparr>reverse = True\<rparr> example_heap 0) = Some 0 \<and>
   map_option (\<lambda>(r, h'). children (cells h' r))
     (transform 3 identity \<lparr>reverse = True\<rparr> example_heap 0) = Some (Some [2, 1])"
  by (simp add: transform_def example_eval array_set_def set_children_def apply_identity)

subsection \<open>filter\<close>

text \<open>
  Claim C9. When the predicate rejects the root, \<open>filter\<close> returns the root it was
  given, and the store is as it was.
\<close>

theorem filter_rejected_root:
  "fst (predicate s h tree None None) = False \<Longrightarrow>
     filter_tree (Suc fuel) predicate h tree s =
       Some (tree, h, snd (predicate s h tree None None))"
  by (cases "predicate s h tree None None") (simp add: filter_tree_def)

theorem filter_rejected_root_witness:
  "fst (reject_node 0 () example_heap 0 None None) = False \<and>
   filter_tree (Suc 2) (reject_node 0) example_heap 0 () = Some (0, example_heap, ())"
  using filter_rejected_root [of "reject_node 0" "()" example_heap 0 2]
  by (simp add: reject_node_def)

lemma extends_refl: "extends h h"
  by (simp add: extends_def)

lemma extends_trans: "extends h1 h2 \<Longrightarrow> extends h2 h3 \<Longrightarrow> extends h1 h3"
  by (auto simp: extends_def)

lemma alloc_extends: "alloc h n = (a, h') \<Longrightarrow> extends h h'"
  by (auto simp: alloc_def extends_def)

lemma alloc_fresh:
  "alloc h n = (a, h') \<Longrightarrow> a = next_free h \<and> cells h' a = n \<and> next_free h' = Suc a"
  by (auto simp: alloc_def)

lemma is_tree_extends: "is_tree h t \<Longrightarrow> extends h h' \<Longrightarrow> is_tree h' t"
proof (induction t)
  case (Tree a ts)
  then have a: "a < next_free h" by simp
  then have same: "cells h' a = cells h a" and a': "a < next_free h'"
    using Tree.prems(2) by (auto simp: extends_def)
  show ?case
  proof (cases "children (cells h a)")
    case None
    then show ?thesis using Tree.prems(1) same a' by simp
  next
    case (Some cs)
    then have "list_all (is_tree h) ts" using Tree.prems(1) by simp
    then have "list_all (is_tree h') ts"
      using Tree.IH Tree.prems(2) by (simp add: list_all_iff)
    then show ?thesis using Tree.prems(1) Some same a' by simp
  qed
qed

lemma deep_extends: "is_tree h t \<Longrightarrow> extends h h' \<Longrightarrow> deep h' t = deep h t"
proof (induction t)
  case (Tree a ts)
  then have a: "a < next_free h" by simp
  then have same: "cells h' a = cells h a"
    using Tree.prems(2) by (auto simp: extends_def)
  show ?case
  proof (cases "children (cells h a)")
    case None
    then show ?thesis using same by simp
  next
    case (Some cs)
    then have "list_all (is_tree h) ts" using Tree.prems(1) by simp
    then have "map (deep h') ts = map (deep h) ts"
      using Tree.IH Tree.prems(2) by (simp add: list_all_iff)
    then show ?thesis using Some same by simp
  qed
qed

lemma filterChildren_accept_all:
  assumes IH: "\<And>t index parent h s. is_tree h t \<Longrightarrow> height t \<le> fuel \<Longrightarrow>
      \<exists>r h' s' t'. filterNode fuel predicate (root t) index parent h s = Some (Some r, h', s') \<and>
         extends h h' \<and> is_tree h' t' \<and> root t' = r \<and> deep h' t' = deep h t"
    and hts: "\<forall>t \<in> set ts. height t \<le> fuel"
  shows "list_all (is_tree h) ts \<Longrightarrow> \<forall>i \<in> set idxs. i < length ts \<Longrightarrow>
    \<exists>h' s' ts'. filterChildren fuel predicate a (map root ts) idxs filtered h s =
         Some (filtered @ map root ts', h', s') \<and>
       extends h h' \<and> list_all (is_tree h') ts' \<and>
       map (deep h') ts' = map (\<lambda>i. deep h (ts ! i)) idxs"
proof (induction idxs arbitrary: filtered h s)
  case Nil
  show ?case using extends_refl[of h] by (intro exI[of _ h] exI[of _ s] exI[of _ "[]"]) simp
next
  case (Cons i idxs)
  have i: "i < length ts" and rest: "\<forall>i \<in> set idxs. i < length ts"
    using Cons.prems(2) by simp_all
  have ti: "is_tree h (ts ! i)" "height (ts ! i) \<le> fuel"
    using Cons.prems(1) hts i by (simp_all add: list_all_length)
  from IH[OF ti, of "Some i" "Some a" s] obtain r h1 s1 t1 where
    f1: "filterNode fuel predicate (root (ts ! i)) (Some i) (Some a) h s = Some (Some r, h1, s1)"
    and e1: "extends h h1" and t1: "is_tree h1 t1" "root t1 = r" "deep h1 t1 = deep h (ts ! i)"
    by blast
  have ts1: "list_all (is_tree h1) ts"
    using Cons.prems(1) e1 is_tree_extends by (auto simp: list_all_iff)
  from Cons.IH[OF ts1 rest, of "filtered @ [r]" s1] obtain h2 s2 ts2 where
    f2: "filterChildren fuel predicate a (map root ts) idxs (filtered @ [r]) h1 s1 =
           Some ((filtered @ [r]) @ map root ts2, h2, s2)"
    and e2: "extends h1 h2" and t2: "list_all (is_tree h2) ts2"
    and d2: "map (deep h2) ts2 = map (\<lambda>i. deep h1 (ts ! i)) idxs"
    by blast
  have d1: "map (\<lambda>i. deep h1 (ts ! i)) idxs = map (\<lambda>i. deep h (ts ! i)) idxs"
  proof (rule map_cong[OF refl])
    fix j assume "j \<in> set idxs"
    then have "is_tree h (ts ! j)" using rest Cons.prems(1) by (simp add: list_all_length)
    then show "deep h1 (ts ! j) = deep h (ts ! j)" using e1 by (rule deep_extends)
  qed
  have "filterChildren fuel predicate a (map root ts) (i # idxs) filtered h s =
          Some (filtered @ map root (t1 # ts2), h2, s2)"
    using f1 f2 i t1(2) by simp
  moreover have "extends h h2" using e1 e2 by (rule extends_trans)
  moreover have "list_all (is_tree h2) (t1 # ts2)"
    using t2 is_tree_extends[OF t1(1) e2] by simp
  moreover have "map (deep h2) (t1 # ts2) = map (\<lambda>i. deep h (ts ! i)) (i # idxs)"
    using d2 d1 deep_extends[OF t1(1) e2] t1(3) by simp
  ultimately show ?case by blast
qed

lemma filterNode_accept_all:
  assumes acc: "\<forall>s h a i p. fst (predicate s h a i p)"
  shows "is_tree h t \<Longrightarrow> height t \<le> fuel \<Longrightarrow>
    \<exists>r h' s' t'. filterNode fuel predicate (root t) index parent h s = Some (Some r, h', s') \<and>
       extends h h' \<and> is_tree h' t' \<and> root t' = r \<and> deep h' t' = deep h t \<and>
       (r = root t \<longleftrightarrow> children (cells h (root t)) = None)"
proof (induction fuel arbitrary: t index parent h s)
  case 0
  then show ?case by (cases t) simp
next
  case (Suc fuel)
  obtain a ts where t: "t = Tree a ts" by (cases t)
  have "fst (predicate s h a index parent)" using acc by blast
  then obtain s0 where p: "predicate s h a index parent = (True, s0)"
    by (cases "predicate s h a index parent") simp
  have a: "a < next_free h" using Suc.prems(1) t by simp
  show ?case
  proof (cases "children (cells h a)")
    case None
    then have "filterNode (Suc fuel) predicate (root t) index parent h s = Some (Some a, h, s0)"
      using t p by simp
    then show ?thesis using None t Suc.prems(1) extends_refl[of h]
      by (intro exI[of _ a] exI[of _ h] exI[of _ s0] exI[of _ t]) simp
  next
    case (Some cs)
    then have cs: "cs = map root ts" and ts: "list_all (is_tree h) ts"
      using Suc.prems t by simp_all
    have hts: "\<forall>t \<in> set ts. height t \<le> fuel"
      using Suc.prems(2) t height_subtree by blast
    have IH: "\<exists>r h' s' t'. filterNode fuel predicate (root t) index parent h s = Some (Some r, h', s') \<and>
         extends h h' \<and> is_tree h' t' \<and> root t' = r \<and> deep h' t' = deep h t"
      if "is_tree h t" "height t \<le> fuel" for t index parent h s
      using Suc.IH[OF that, of index parent s] by blast
    have "\<forall>i \<in> set [0..<length ts]. i < length ts" by simp
    from filterChildren_accept_all[OF IH hts ts this, of a "[]" s0]
    obtain h1 s1 ts1 where
      f1: "filterChildren fuel predicate a (map root ts) [0..<length ts] [] h s0 =
             Some (map root ts1, h1, s1)"
      and e1: "extends h h1" and t1: "list_all (is_tree h1) ts1"
      and d1: "map (deep h1) ts1 = map (\<lambda>i. deep h (ts ! i)) [0..<length ts]"
      by auto
    have d1': "map (deep h1) ts1 = map (deep h) ts"
      using d1 by (simp only: map_nth_upt)
    obtain fresh h2 where
      al: "alloc h1 ((cells h1 a)\<lparr>children := Some (map root ts1)\<rparr>) = (fresh, h2)"
      by (cases "alloc h1 ((cells h1 a)\<lparr>children := Some (map root ts1)\<rparr>)")
    have e2: "extends h1 h2" using al by (rule alloc_extends)
    have fr: "fresh = next_free h1"
      "cells h2 fresh = (cells h1 a)\<lparr>children := Some (map root ts1)\<rparr>"
      "next_free h2 = Suc fresh"
      using alloc_fresh[OF al] by auto
    have same: "cells h1 a = cells h a" using e1 a by (simp add: extends_def)
    have ne: "fresh \<noteq> a" using fr(1) e1 a by (simp add: extends_def)
    let ?t' = "Tree fresh ts1"
    have res: "filterNode (Suc fuel) predicate (root t) index parent h s =
        Some (Some fresh, h2, s1)"
      using t p Some cs f1 al by simp
    have tree': "is_tree h2 ?t'"
      using fr t1 e2 is_tree_extends by (auto simp: list_all_iff)
    have "map (deep h2) ts1 = map (deep h1) ts1"
      using t1 e2 deep_extends by (auto simp: list_all_iff)
    then have deep': "deep h2 ?t' = deep h t"
      using fr same t Some d1' by simp
    show ?thesis
      using res extends_trans[OF e1 e2] tree' deep' ne Some t
      by (intro exI[of _ fresh] exI[of _ h2] exI[of _ s1] exI[of _ ?t']) simp
  qed
qed

text \<open>
  Claim C6, as stated, fails: for a root without a children array \<open>filter\<close> returns
  the root itself, the same object, when the predicate accepts it.
\<close>

theorem filter_leaf_same_object:
  "is_tree leaf_heap (Tree 0 []) \<and>
   fst (accept_all () leaf_heap 0 None None) \<and>
   filter_tree 1 accept_all leaf_heap 0 () = Some (0, leaf_heap, ())"
  by (simp add: filter_tree_def accept_all_def leaf_heap_def leaf_def)

text \<open>
  Claim C6, amended. On a tree \<open>T\<close> and with a predicate that accepts every node,
  \<open>filter\<close> returns a tree deep-equal to \<open>T\<close> (same structure, same children order)
  and leaves every object of the store as it was; the result is a new object exactly
  when \<open>T\<close> has a children array, and \<open>T\<close> itself when it has none.
\<close>

theorem filter_accept_all:
  assumes "is_tree h t" and "height t \<le> fuel"
    and "\<forall>s h a i p. fst (predicate s h a i p)"
  shows "\<exists>r h' s' t'. filter_tree fuel predicate h (root t) s = Some (r, h', s') \<and>
       is_tree h' t' \<and> root t' = r \<and> deep h' t' = deep h t \<and>
       extends h h' \<and>
       (r = root t \<longleftrightarrow> children (cells h (root t)) = None)"
proof -
  from filterNode_accept_all[OF assms(3) assms(1,2), where index = None and parent = None and s = s]
  obtain r h' s' t' where
    "filterNode fuel predicate (root t) None None h s = Some (Some r, h', s')"
    "extends h h'" "is_tree h' t'" "root t' = r" "deep h' t' = deep h t"
    "r = root t \<longleftrightarrow> children (cells h (root t)) = None"
    by (elim exE conjE)
  then show ?thesis
    by (intro exI[of _ r] exI[of _ h'] exI[of _ s'] exI[of _ t'])
       (simp add: filter_tree_def)
qed

theorem filter_accept_all_witness:
  "is_tree example_heap example_tree \<and> height example_tree \<le> 3 \<and>
   (\<forall>s h a i p. fst (accept_all s h a i p)) \<and>
   (\<exists>r h' s' t'. filter_tree 3 accept_all example_heap (root example_tree) () = Some (r, h', s') \<and>
       is_tree h' t' \<and> root t' = r \<and> deep h' t' = deep example_heap example_tree \<and>
       extends example_heap h' \<and>
       (r = root example_tree \<longleftrightarrow> children (cells example_heap (root example_tree)) = None)) \<and>
   map_option fst (filter_tree 3 accept_all example_heap 0 ()) = Some 5 \<and>
   map_option (\<lambda>(r, h', s'). (children (cells h' r), children (cells h' 4), cells h' 0))
     (filter_tree 3 accept_all example_heap 0 ()) =
     Some (Some [4, 2], Some [3], parent_of ''root'' [1, 2])"
proof -
  have acc: "\<forall>s h a i p. fst (accept_all s h a i p)"
    by (simp add: accept_all_def)
  have run: "map_option fst (filter_tree 3 accept_all example_heap 0 ()) = Some 5 \<and>
    map_option (\<lambda>(r, h', s'). (children (cells h' r), children (cells h' 4), cells h' 0))
     (filter_tree 3 accept_all example_heap 0 ()) =
     Some (Some [4, 2], Some [3], parent_of ''root'' [1, 2])"
    by (simp add: filter_tree_def accept_all_def alloc_def example_eval upt_rec)
  show ?thesis
    using example_is_tree example_height acc run
      filter_accept_all [OF example_is_tree example_height acc, of "()"]
    by blast
qed

end
